theory Spec2Isabelle
  imports Main
begin

section \<open>Values, objects and errors\<close>

text \<open>
  The migration client and the stage tracker handle schema-less JavaScript values.
  A value is \<open>undefined\<close>, \<open>null\<close>, a boolean, a number, a string, an array or a
  plain object. An object is the list of its own enumerable properties in enumeration
  order (the order of \<open>Object.keys\<close> and of \<open>for ... in\<close>); every key occurs once,
  and the prototype of every object is \<open>Object.prototype\<close>. A number is an integer and
  stands for the double of that value (the code only counts with numbers); an integer
  that no double holds does not occur.
\<close>

datatype jv =
    JUndef
  | JNull
  | JBool bool
  | JNum int
  | JStr string
  | JArr "jv list"
  | JObj "(string \<times> jv) list"

type_synonym obj = "(string \<times> jv) list"

text \<open>
  A failed call is a value: \<open>TypeError\<close> is the exception the language raises when a
  method or property of a non-object is used, \<open>StoreIOError\<close> is a rejected store call.
\<close>

datatype error = TypeError | StoreIOError string

text \<open>
  \<open>o[k]\<close> and \<open>o.k\<close> for a name that \<open>Object.prototype\<close> does not have (\<open>$set\<close>, \<open>$like\<close>,
  \<open>index\<close>): the own property, \<open>undefined\<close> when the object has none of that name.
\<close>

definition get_prop :: "obj \<Rightarrow> string \<Rightarrow> jv" where
  "get_prop ob k = (case map_of ob k of None \<Rightarrow> JUndef | Some v \<Rightarrow> v)"

text \<open>
  \<open>o[k] = v\<close>, and the spread \<open>{...o, k: v}\<close>: an existing property keeps its place and
  takes the new value, a new property goes last (the names the code adds are no
  array indices, which would be enumerated first).
\<close>

fun obj_set :: "obj \<Rightarrow> string \<Rightarrow> jv \<Rightarrow> obj" where
  "obj_set [] k v = [(k, v)]"
| "obj_set ((k', v') # ob) k v = (if k' = k then (k, v) # ob else (k', v') # obj_set ob k v)"



section \<open>translateQuery\<close>

text \<open>\<open>s.split(sep)\<close> for a one-character separator, and \<open>parts.join(sep)\<close>.\<close>

fun js_split :: "char \<Rightarrow> string \<Rightarrow> string list" where
  "js_split sep [] = [[]]"
| "js_split sep (c # cs) =
     (if c = sep then [] # js_split sep cs
      else (c # hd (js_split sep cs)) # tl (js_split sep cs))"

fun js_join :: "string \<Rightarrow> string list \<Rightarrow> string" where
  "js_join sep [] = []"
| "js_join sep [x] = x"
| "js_join sep (x # y # ys) = x @ sep @ js_join sep (y # ys)"

text \<open>The template \<open>`^${pattern.split('%').join('.*')}$`\<close>.\<close>

definition like_regex :: "string \<Rightarrow> string" where
  "like_regex pattern = ''^'' @ js_join ''.*'' (js_split (CHR ''%'') pattern) @ ''$''"

text \<open>
  \<open>value !== null && typeof value === 'object'\<close> holds of arrays and objects.
\<close>

fun is_object :: "jv \<Rightarrow> bool" where
  "is_object (JArr xs) = True"
| "is_object (JObj ob) = True"
| "is_object _ = False"

text \<open>
  \<open>Object.keys(value)[0]\<close>: the first key of an object, the index \<open>0\<close> of a non-empty
  array, \<open>undefined\<close> (here \<open>None\<close>) when there is no key.
\<close>

fun first_key :: "jv \<Rightarrow> string option" where
  "first_key (JObj []) = None"
| "first_key (JObj ((k, v) # ob)) = Some k"
| "first_key (JArr []) = None"
| "first_key (JArr (x # xs)) = Some ''0''"
| "first_key _ = None"

text \<open>\<open>value.name\<close> on an array or object.\<close>

fun member :: "jv \<Rightarrow> string \<Rightarrow> jv" where
  "member (JObj ob) name = get_prop ob name"
| "member _ name = JUndef"

text \<open>
  The body of the loop for one field. \<open>value.$like as string\<close> is a cast only: on a
  pattern that is not a string, \<open>pattern.split\<close> raises.
\<close>

definition translate_value :: "jv \<Rightarrow> error + jv" where
  "translate_value value =
     (if is_object value \<and> first_key value = Some ''$like'' then
        (case member value ''$like'' of
           JStr pattern \<Rightarrow>
             Inr (JObj [(''$regex'', JStr (like_regex pattern)), (''$options'', JStr ''i'')])
         | _ \<Rightarrow> Inl TypeError)
      else Inr value)"

text \<open>
  The loop over the fields of the query. Keys are distinct, so each assignment
  \<open>translated[key] = ...\<close> adds a property after the ones added before. One key is
  no property name to an assignment: for an own key \<open>__proto__\<close> of the query (as
  \<open>JSON.parse\<close> creates) \<open>translated['__proto__'] = v\<close> sets the prototype of the
  result, or does nothing when \<open>v\<close> is a primitive, and the result gets no such
  field. The value of that field is translated all the same, before the assignment.
\<close>

fun translateQuery :: "obj \<Rightarrow> error + obj" where
  "translateQuery [] = Inr []"
| "translateQuery ((key, value) # query) =
     (case translate_value value of
        Inl e \<Rightarrow> Inl e
      | Inr v \<Rightarrow>
          (case translateQuery query of
             Inl e \<Rightarrow> Inl e
           | Inr translated \<Rightarrow>
               Inr (if key = ''__proto__'' then translated else (key, v) # translated)))"

text \<open>
  The claims about the translator speak of the field values that are an object with
  first key \<open>$like\<close>, and of the pattern such a value carries. \<open>like_pattern\<close> says
  which values these are, in the claims' words and apart from the code above.
\<close>

fun like_pattern :: "jv \<Rightarrow> jv option" where
  "like_pattern (JObj ((k, p) # ob)) = (if k = ''$like'' then Some p else None)"
| "like_pattern _ = None"

fun is_string :: "jv \<Rightarrow> bool" where
  "is_string (JStr s) = True"
| "is_string _ = False"

section \<open>What the filters mean to the store\<close>

text \<open>
  The store's regular-expression engine is not part of the repository. Its behaviour on
  the expressions the translator can emit from patterns without further
  metacharacters is fixed by the regular-expression language itself: \<open>^\<close> is the
  start of the string, \<open>$\<close> its end or the line feed that ends it, a dot is any
  character but a line feed, \<open>x*\<close> repeats \<open>x\<close>, any other character stands for itself,
  and option \<open>i\<close> ignores the case of ASCII letters. Expressions outside this fragment
  get no answer (\<open>None\<close>).
\<close>

datatype atom = Dot | Lit char

datatype re_item = One atom | Star atom

definition lower :: "char \<Rightarrow> char" where
  "lower c =
     (if 65 \<le> (of_char c :: nat) \<and> (of_char c :: nat) \<le> 90
      then char_of ((of_char c :: nat) + 32) else c)"

fun atom_ok :: "atom \<Rightarrow> char \<Rightarrow> bool" where
  "atom_ok Dot x = (x \<noteq> CHR 0x0A)"
| "atom_ok (Lit c) x = (lower c = lower x)"

definition atom_of :: "char \<Rightarrow> atom option" where
  "atom_of c =
     (if c = CHR ''.'' then Some Dot
      else if c = CHR 0x5C \<or> c \<in> set ''^$|?*+()[]{}'' then None
      else Some (Lit c))"

fun re_items :: "string \<Rightarrow> re_item list option" where
  "re_items [] = Some []"
| "re_items [c] = map_option (\<lambda>a. [One a]) (atom_of c)"
| "re_items (c # d # cs) =
     (case atom_of c of
        None \<Rightarrow> None
      | Some a \<Rightarrow>
          (if d = CHR ''*'' then map_option ((#) (Star a)) (re_items cs)
           else map_option ((#) (One a)) (re_items (d # cs))))"

fun items_match :: "re_item list \<Rightarrow> string \<Rightarrow> bool" where
  "items_match [] s = (s = [] \<or> s = [CHR 0x0A])"
| "items_match (One a # r) s =
     (case s of [] \<Rightarrow> False | x # xs \<Rightarrow> atom_ok a x \<and> items_match r xs)"
| "items_match (Star a # r) s =
     list_ex (\<lambda>n. list_all (atom_ok a) (take n s) \<and> items_match r (drop n s))
       [0 ..< Suc (length s)]"

definition regex_test_i :: "string \<Rightarrow> string \<Rightarrow> bool option" where
  "regex_test_i re s =
     (case re of
        [] \<Rightarrow> None
      | c # body \<Rightarrow>
          (if c = CHR ''^'' \<and> body \<noteq> [] \<and> last body = CHR ''$''
           then map_option (\<lambda>is. items_match is s) (re_items (butlast body))
           else None))"

text \<open>
  Modelled from the spec: the meaning of a \<open>$like\<close> pattern read literally. \<open>%\<close> is
  any sequence of characters, every other character stands for itself, the match
  ignores case and covers the whole string.
\<close>

fun like_match :: "string \<Rightarrow> string \<Rightarrow> bool" where
  "like_match [] s = (s = [])"
| "like_match (c # p) s =
     (if c = CHR ''%'' then list_ex (\<lambda>n. like_match p (drop n s)) [0 ..< Suc (length s)]
      else (case s of [] \<Rightarrow> False | x # xs \<Rightarrow> lower c = lower x \<and> like_match p xs))"

section \<open>The iterator of traverse\<close>

text \<open>
  The cursor belongs to the store driver. It is a state \<open>'c\<close> with two operations,
  \<open>hasNext\<close> and \<open>next\<close>; each returns its answer, or the fault it was rejected with,
  and the state it leaves. \<open>next\<close> answers a document or \<open>null\<close> (\<open>None\<close>).
\<close>

record 'c cursor =
  hasNext :: "'c \<Rightarrow> (error + bool) \<times> 'c"
  next_doc :: "'c \<Rightarrow> (error + obj option) \<times> 'c"

text \<open>
  The loop of \<open>next(size)\<close>, with the integer \<open>n\<close> for the size. The call of
  \<open>cursor.hasNext()\<close> stands in the loop condition, before the \<open>try\<close>; only
  \<open>cursor.next()\<close> is inside it. The result of the iterator is a rejection (\<open>Inl\<close>),
  \<open>null\<close> (\<open>Inr None\<close>) or the documents. The line the handler writes to the console
  is left out.
\<close>

function next_loop ::
  "'c cursor \<Rightarrow> int \<Rightarrow> obj list \<Rightarrow> 'c \<Rightarrow> (error + obj list option) \<times> 'c" where
  "next_loop cur n docs c =
     (if int (length docs) < n then
        (case hasNext cur c of
           (Inl e, c1) \<Rightarrow> (Inl e, c1)
         | (Inr False, c1) \<Rightarrow> (Inr (Some docs), c1)
         | (Inr True, c1) \<Rightarrow>
             (case next_doc cur c1 of
                (Inl err, c2) \<Rightarrow> (Inr None, c2)
              | (Inr None, c2) \<Rightarrow> (Inr (Some docs), c2)
              | (Inr (Some d), c2) \<Rightarrow> next_loop cur n (docs @ [d]) c2))
      else (Inr (Some docs), c))"
  by pat_completeness auto
termination
  by (relation "measure (\<lambda>(cur, n, docs, c). nat (n - int (length docs)))") auto

definition traverse_next ::
  "'c cursor \<Rightarrow> int \<Rightarrow> 'c \<Rightarrow> (error + obj list option) \<times> 'c" where
  "traverse_next cur n c = next_loop cur n [] c"

text \<open>
  A cursor to run the iterator on: the list of what the coming pulls will find, a
  document or a fault of the store. \<open>hasNext\<close> on a document that is there answers
  true and consumes nothing; a fault rejects the call that meets it.
\<close>

datatype pull = Item obj | HasNextFault string | NextFault string

fun scripted_hasNext :: "pull list \<Rightarrow> (error + bool) \<times> pull list" where
  "scripted_hasNext [] = (Inr False, [])"
| "scripted_hasNext (HasNextFault m # rest) = (Inl (StoreIOError m), rest)"
| "scripted_hasNext (p # rest) = (Inr True, p # rest)"

fun scripted_next :: "pull list \<Rightarrow> (error + obj option) \<times> pull list" where
  "scripted_next [] = (Inr None, [])"
| "scripted_next (Item d # rest) = (Inr (Some d), rest)"
| "scripted_next (HasNextFault m # rest) = (Inl (StoreIOError m), rest)"
| "scripted_next (NextFault m # rest) = (Inl (StoreIOError m), rest)"

definition scripted :: "pull list cursor" where
  "scripted = \<lparr>hasNext = scripted_hasNext, next_doc = scripted_next\<rparr>"

section \<open>The store and the write operations of the client\<close>

text \<open>
  The document store is outside the repository. It is a state \<open>'w\<close> with the
  operations of the driver the client calls; each returns its answer, or the fault it
  was rejected with, and the state it leaves. \<open>find\<close> only opens a cursor, whose
  operations act on the same state.
\<close>

record update_result =
  matchedCount :: nat
  modifiedCount :: nat

datatype write_op = UpdateOne obj obj

record 'w store =
  find_cursor :: "string \<Rightarrow> obj \<Rightarrow> 'w \<Rightarrow> 'w cursor \<times> 'w"
  updateMany :: "string \<Rightarrow> obj \<Rightarrow> obj \<Rightarrow> 'w \<Rightarrow> (error + update_result) \<times> 'w"
  bulkWrite :: "string \<Rightarrow> write_op list \<Rightarrow> 'w \<Rightarrow> (error + update_result) \<times> 'w"
  insertOne :: "string \<Rightarrow> obj \<Rightarrow> 'w \<Rightarrow> (error + unit) \<times> 'w"
  deleteMany :: "string \<Rightarrow> obj \<Rightarrow> 'w \<Rightarrow> (error + unit) \<times> 'w"

record MigrationResult =
  matched :: nat
  updated :: nat

text \<open>
  \<open>return { matched: result.matchedCount, updated: result.modifiedCount }\<close> after an
  awaited write; a rejected write rejects the operation.
\<close>

definition to_result :: "(error + update_result) \<times> 'w \<Rightarrow> (error + MigrationResult) \<times> 'w" where
  "to_result r =
     (case r of
        (Inl e, w') \<Rightarrow> (Inl e, w')
      | (Inr result, w') \<Rightarrow>
          (Inr \<lparr>matched = matchedCount result, updated = modifiedCount result\<rparr>, w'))"



text \<open>
  \<open>bulk\<close>. An item is the pair of its \<open>filter\<close> and its \<open>update\<close>. The items are mapped
  to the writes first, then the one \<open>bulkWrite\<close> is awaited.
\<close>

type_synonym bulk_item = "obj \<times> obj"

fun bulk_writes :: "bulk_item list \<Rightarrow> error + write_op list" where
  "bulk_writes [] = Inr []"
| "bulk_writes (it # operations) =
     (case translateQuery (fst it) of
        Inl e \<Rightarrow> Inl e
      | Inr q \<Rightarrow>
          (case bulk_writes operations of
             Inl e \<Rightarrow> Inl e
           | Inr writes \<Rightarrow>
               Inr (UpdateOne q [(''$set'', JObj (obj_set (snd it) ''%hash%'' JNull))]
                    # writes)))"

definition bulk ::
  "'w store \<Rightarrow> string \<Rightarrow> bulk_item list \<Rightarrow> 'w \<Rightarrow> (error + MigrationResult) \<times> 'w" where
  "bulk db domain operations w =
     (case bulk_writes operations of
        Inl e \<Rightarrow> (Inl e, w)
      | Inr writes \<Rightarrow> to_result (bulkWrite db domain writes w))"







section \<open>A store in memory\<close>

text \<open>
  A store to run the client on: every collection is the list of its documents, and an
  open cursor holds the documents it still has to hand out, fixed when it is opened.
  What a filter accepts and what an update document does to a document is the store's
  own business: \<open>matches\<close> and \<open>modify\<close> are parameters. No call is rejected.
\<close>

record mem =
  colls :: "string \<Rightarrow> obj list"
  cursor_rest :: "obj list"

definition mem_cursor :: "mem cursor" where
  "mem_cursor =
     \<lparr>hasNext = (\<lambda>m. (Inr (cursor_rest m \<noteq> []), m)),
      next_doc = (\<lambda>m. case cursor_rest m of
                         [] \<Rightarrow> (Inr None, m)
                       | d # rest \<Rightarrow> (Inr (Some d), m\<lparr>cursor_rest := rest\<rparr>))\<rparr>"

fun update_first :: "(obj \<Rightarrow> bool) \<Rightarrow> (obj \<Rightarrow> obj) \<Rightarrow> obj list \<Rightarrow> obj list" where
  "update_first P f [] = []"
| "update_first P f (d # ds) = (if P d then f d # ds else d # update_first P f ds)"

fun mem_bulk ::
  "(obj \<Rightarrow> obj \<Rightarrow> bool) \<Rightarrow> (obj \<Rightarrow> obj \<Rightarrow> obj) \<Rightarrow> write_op list \<Rightarrow> obj list
   \<Rightarrow> update_result \<times> obj list" where
  "mem_bulk matches modify [] ds = (\<lparr>matchedCount = 0, modifiedCount = 0\<rparr>, ds)"
| "mem_bulk matches modify (UpdateOne q u # writes) ds =
     (case mem_bulk matches modify writes (update_first (matches q) (modify u) ds) of
        (r, ds') \<Rightarrow>
          (\<lparr>matchedCount = matchedCount r + (if list_ex (matches q) ds then 1 else 0),
            modifiedCount = modifiedCount r
              + (if update_first (matches q) (modify u) ds \<noteq> ds then 1 else 0)\<rparr>, ds'))"

definition mem_store ::
  "(obj \<Rightarrow> obj \<Rightarrow> bool) \<Rightarrow> (obj \<Rightarrow> obj \<Rightarrow> obj) \<Rightarrow> mem store" where
  "mem_store matches modify =
     \<lparr>find_cursor = (\<lambda>domain q m.
        (mem_cursor, m\<lparr>cursor_rest := filter (matches q) (colls m domain)\<rparr>)),
      updateMany = (\<lambda>domain q u m.
        (Inr \<lparr>matchedCount = length (filter (matches q) (colls m domain)),
              modifiedCount =
                length (filter (\<lambda>d. modify u d \<noteq> d) (filter (matches q) (colls m domain)))\<rparr>,
         m\<lparr>colls := (colls m)
               (domain := map (\<lambda>d. if matches q d then modify u d else d) (colls m domain))\<rparr>)),
      bulkWrite = (\<lambda>domain writes m.
        (case mem_bulk matches modify writes (colls m domain) of
           (r, ds') \<Rightarrow> (Inr r, m\<lparr>colls := (colls m)(domain := ds')\<rparr>))),
      insertOne = (\<lambda>domain doc m.
        (Inr (), m\<lparr>colls := (colls m)(domain := colls m domain @ [doc])\<rparr>)),
      deleteMany = (\<lambda>domain q m.
        (Inr (), m\<lparr>colls := (colls m)
                     (domain := filter (\<lambda>d. \<not> matches q d) (colls m domain))\<rparr>))\<rparr>"

text \<open>
  The simplest reading of filters and update documents, for running examples: a
  filter of plain values accepts the documents that have these values, and \<open>$set\<close>
  writes its fields into the document.
\<close>

definition eq_matches :: "obj \<Rightarrow> obj \<Rightarrow> bool" where
  "eq_matches q doc = list_all (\<lambda>kv. get_prop doc (fst kv) = snd kv) q"

definition set_fields :: "obj \<Rightarrow> obj \<Rightarrow> obj" where
  "set_fields u doc =
     (case get_prop u ''$set'' of
        JObj fs \<Rightarrow> foldl (\<lambda>d kv. obj_set d (fst kv) (snd kv)) doc fs
      | _ \<Rightarrow> doc)"


text \<open>
  A store whose connection is down, for running examples: every call is rejected and
  nothing changes.
\<close>

definition offline_store :: "mem store" where
  "offline_store =
     \<lparr>find_cursor = (\<lambda>domain q m.
        (\<lparr>hasNext = (\<lambda>m. (Inl (StoreIOError ''offline''), m)),
          next_doc = (\<lambda>m. (Inl (StoreIOError ''offline''), m))\<rparr>, m)),
      updateMany = (\<lambda>domain q u m. (Inl (StoreIOError ''offline''), m)),
      bulkWrite = (\<lambda>domain writes m. (Inl (StoreIOError ''offline''), m)),
      insertOne = (\<lambda>domain doc m. (Inl (StoreIOError ''offline''), m)),
      deleteMany = (\<lambda>domain q m. (Inl (StoreIOError ''offline''), m))\<rparr>"

text \<open>A collection of three tasks, two of them open.\<close>

definition example_tasks :: mem where
  "example_tasks =
     \<lparr>colls = (\<lambda>domain. if domain = ''tasks'' then
         [[(''_id'', JStr ''t1''), (''%hash%'', JStr ''h1''), (''status'', JStr ''open'')],
          [(''_id'', JStr ''t2''), (''status'', JStr ''done''), (''%hash%'', JStr ''h2'')],
          [(''_id'', JStr ''t3''), (''status'', JStr ''open'')]]
        else []),
      cursor_rest = []\<rparr>"

section \<open>The class hierarchy and traverseFullTextContexts\<close>

text \<open>
  The class hierarchy belongs to the core package: the client of this module reads the
  descendants and ancestors of a class, whether a class is a mixin, and, through
  \<open>getFullTextContext\<close>, the full-text context declared for a class, if any. A class
  is named by its identifier; what a context holds is of no concern to the traversal.
\<close>

record 'ctx hierarchy =
  getDescendants :: "string \<Rightarrow> string list"
  getAncestors :: "string \<Rightarrow> string list"
  isMixin :: "string \<Rightarrow> bool"
  getFullTextContext :: "string \<Rightarrow> 'ctx option"

text \<open>
  A \<open>Set\<close> keeps its elements in the order they were first added: \<open>set.add(x)\<close>, and
  \<open>new Set(xs)\<close>.
\<close>

definition set_add :: "'a list \<Rightarrow> 'a \<Rightarrow> 'a list" where
  "set_add xs x = (if x \<in> set xs then xs else xs @ [x])"

definition new_set :: "'a list \<Rightarrow> 'a list" where
  "new_set xs = foldl set_add [] xs"

text \<open>
  \<open>const c = getFullTextContext(hierarchy, cl); if (c !== undefined) op(c)\<close>. The
  visitor \<open>op\<close> acts on a state of its own.
\<close>

definition visit :: "'ctx hierarchy \<Rightarrow> ('ctx \<Rightarrow> 's \<Rightarrow> 's) \<Rightarrow> string \<Rightarrow> 's \<Rightarrow> 's" where
  "visit h op cl s = (case getFullTextContext h cl of None \<Rightarrow> s | Some c \<Rightarrow> op c s)"

text \<open>
  The three steps of the traversal. The loop over the ancestors visits each and adds
  the mixins among its descendants to \<open>desc\<close>; the last loop runs over \<open>desc\<close>. The
  set \<open>propagate\<close> the function returns is never added to.
\<close>

definition traverseFullTextContexts ::
  "'ctx hierarchy \<Rightarrow> string \<Rightarrow> ('ctx \<Rightarrow> 's \<Rightarrow> 's) \<Rightarrow> 's \<Rightarrow> string list \<times> 's" where
  "traverseFullTextContexts h objectClass op s =
     (let desc = new_set (getDescendants h objectClass);
          s1 = visit h op objectClass s;
          (desc', s2) =
            foldl (\<lambda>(desc, s) a.
                     (foldl (\<lambda>desc dd. if isMixin h dd then set_add desc dd else desc)
                        desc (getDescendants h a),
                      visit h op a s))
              (desc, s1) (getAncestors h objectClass);
          s3 = foldl (\<lambda>s d. if isMixin h d then visit h op d s else s) s2 desc'
      in ([], s3))"

text \<open>The contexts a traversal hands to its visitor, in order: the visitor that notes them.\<close>

definition visited :: "'ctx hierarchy \<Rightarrow> string \<Rightarrow> 'ctx list" where
  "visited h objectClass = snd (traverseFullTextContexts h objectClass (\<lambda>c tr. tr @ [c]) [])"

text \<open>The working set after the loop over the ancestors \<open>as\<close>.\<close>

definition working_set :: "'ctx hierarchy \<Rightarrow> string list \<Rightarrow> string list \<Rightarrow> string list" where
  "working_set h desc as =
     foldl (\<lambda>desc a. foldl (\<lambda>desc dd. if isMixin h dd then set_add desc dd else desc)
                        desc (getDescendants h a)) desc as"

text \<open>The contexts declared for the classes of a list, in the order of the list.\<close>

definition declared :: "'ctx hierarchy \<Rightarrow> string list \<Rightarrow> 'ctx list" where
  "declared h cls =
     concat (map (\<lambda>cl. case getFullTextContext h cl of None \<Rightarrow> [] | Some c \<Rightarrow> [c]) cls)"

text \<open>A hierarchy for running examples: a document class, a subclass and two mixins.\<close>

definition example_hierarchy :: "string list hierarchy" where
  "example_hierarchy =
     \<lparr>getDescendants = (\<lambda>cl.
        if cl = ''Doc'' then [''Doc'', ''Issue'', ''Bug'', ''Tagged'', ''Starred'']
        else if cl = ''Issue'' then [''Issue'', ''Bug'', ''Starred'']
        else if cl = ''Bug'' then [''Bug'']
        else [cl]),
      getAncestors = (\<lambda>cl.
        if cl = ''Bug'' then [''Bug'', ''Issue'', ''Doc'']
        else if cl = ''Issue'' then [''Issue'', ''Doc'']
        else if cl = ''Tagged'' then [''Tagged'', ''Doc'']
        else if cl = ''Starred'' then [''Starred'', ''Issue'', ''Doc'']
        else [cl]),
      isMixin = (\<lambda>cl. cl = ''Tagged'' \<or> cl = ''Starred''),
      getFullTextContext = (\<lambda>cl.
        if cl = ''Issue'' then Some [''Project'']
        else if cl = ''Tagged'' then Some [''Tag'']
        else if cl = ''Starred'' then Some [''User'']
        else None)\<rparr>"

section \<open>The version record of an indexing stage\<close>

































section \<open>Properties of translateQuery\<close>

lemma js_split_ne: "js_split sep s \<noteq> []"
  by (induction s) auto

lemma js_join_cons: "ys \<noteq> [] \<Longrightarrow> js_join sep (x # ys) = x @ sep @ js_join sep ys"
  by (cases ys) auto

lemma js_join_hd: "xs \<noteq> [] \<Longrightarrow> js_join s ((c # hd xs) # tl xs) = c # js_join s xs"
proof (cases xs)
  case Nil then show "xs \<noteq> [] \<Longrightarrow> ?thesis" by simp
next
  case (Cons y ys) then show ?thesis by (cases ys) auto
qed

text \<open>Splitting at a character and joining with a string replaces each occurrence.\<close>

lemma js_join_split:
  "js_join rep (js_split sep s) = concat (map (\<lambda>c. if c = sep then rep else [c]) s)"
  by (induction s) (simp_all add: js_join_cons js_split_ne js_join_hd)

lemma like_regex_replace:
  "like_regex p = ''^'' @ concat (map (\<lambda>c. if c = CHR ''%'' then ''.*'' else [c]) p) @ ''$''"
  by (simp add: like_regex_def js_join_split)

text \<open>What the loop body does, by the shape of the value.\<close>

lemma translate_value_cases:
  "translate_value v =
     (case like_pattern v of
        None \<Rightarrow> Inr v
      | Some pat \<Rightarrow>
          (case pat of
             JStr p \<Rightarrow> Inr (JObj [(''$regex'', JStr (like_regex p)), (''$options'', JStr ''i'')])
           | _ \<Rightarrow> Inl TypeError))"
proof (cases v)
  case (JArr xs)
  then show ?thesis
    by (cases xs) (simp_all add: translate_value_def)
next
  case (JObj ob)
  show ?thesis
  proof (cases ob)
    case Nil
    with JObj show ?thesis by (simp add: translate_value_def)
  next
    case (Cons kp ob')
    obtain k p where "kp = (k, p)" by (cases kp)
    with JObj Cons show ?thesis
      by (cases p) (simp_all add: translate_value_def get_prop_def)
  qed
qed (simp_all add: translate_value_def)

lemma translate_value_other:
  "like_pattern v = None \<Longrightarrow> translate_value v = Inr v"
  by (simp add: translate_value_cases)

lemma translateQuery_append:
  "translateQuery (before @ after) =
     (case translateQuery before of
        Inl e \<Rightarrow> Inl e
      | Inr t1 \<Rightarrow> (case translateQuery after of Inl e \<Rightarrow> Inl e | Inr t2 \<Rightarrow> Inr (t1 @ t2)))"
  by (induction before) (auto split: sum.splits)

lemma translateQuery_raises:
  "\<not> list_all (\<lambda>kv. case like_pattern (snd kv) of None \<Rightarrow> True | Some pat \<Rightarrow> is_string pat)
       query \<Longrightarrow>
   translateQuery query = Inl TypeError"
proof (induction query)
  case Nil
  then show ?case by simp
next
  case (Cons kv query)
  obtain key v where kv: "kv = (key, v)" by (cases kv)
  show ?case
  proof (cases "case like_pattern v of None \<Rightarrow> True | Some pat \<Rightarrow> is_string pat")
    case False
    then obtain pat where "like_pattern v = Some pat" "\<not> is_string pat"
      by (auto split: option.splits)
    then have "translate_value v = Inl TypeError"
      by (cases pat) (simp_all add: translate_value_cases)
    then show ?thesis by (simp add: kv)
  next
    case True
    with Cons.prems have
      "\<not> list_all (\<lambda>kv. case like_pattern (snd kv) of None \<Rightarrow> True | Some pat \<Rightarrow> is_string pat)
           query"
      by (simp add: kv)
    from Cons.IH [OF this] show ?thesis
      by (cases "like_pattern v"; cases "translate_value v")
         (auto simp add: kv translate_value_cases split: jv.splits)
  qed
qed

lemma translateQuery_returns:
  "list_all (\<lambda>kv. case like_pattern (snd kv) of None \<Rightarrow> True | Some pat \<Rightarrow> is_string pat)
       query \<Longrightarrow>
   translateQuery query =
     Inr (map (\<lambda>kv. (fst kv,
            case like_pattern (snd kv) of
              Some (JStr p) \<Rightarrow>
                JObj [(''$regex'',
                       JStr (''^'' @ concat (map (\<lambda>c. if c = CHR ''%'' then ''.*'' else [c]) p)
                             @ ''$'')),
                      (''$options'', JStr ''i'')]
            | _ \<Rightarrow> snd kv))
          (filter (\<lambda>kv. fst kv \<noteq> ''__proto__'') query))"
proof (induction query)
  case Nil
  show ?case by simp
next
  case (Cons kv query)
  obtain key v where kv: "kv = (key, v)" by (cases kv)
  from Cons.prems have
    wt: "case like_pattern v of None \<Rightarrow> True | Some pat \<Rightarrow> is_string pat"
    and rest: "list_all (\<lambda>kv. case like_pattern (snd kv) of
                                None \<Rightarrow> True | Some pat \<Rightarrow> is_string pat) query"
    by (simp_all add: kv)
  show ?case
  proof (cases "like_pattern v")
    case None
    then show ?thesis
      using Cons.IH [OF rest] by (simp add: kv translate_value_cases)
  next
    case (Some pat)
    with wt obtain p where "pat = JStr p" by (cases pat) simp_all
    with Some show ?thesis
      using Cons.IH [OF rest] by (simp add: kv translate_value_cases like_regex_replace)
  qed
qed

text \<open>
  C4, as the code has it. The claim lets the translator never fail and lets every
  other field pass through; the translator does fail, on a \<open>$like\<close> whose pattern is
  not a string, and it leaves a field named \<open>__proto__\<close> out of the filter (the examples
  after this theorem). For every query: if the pattern of each value with first key
  \<open>$like\<close> is a string, the translator returns the fields of the query in their order,
  without a field named \<open>__proto__\<close>; a value with first key \<open>$like\<close> has become the
  case-insensitive expression \<open>^...$\<close> in which each \<open>%\<close> of the pattern is replaced by
  \<open>.*\<close>, and every other value is as it was. If some such pattern is not a string, the
  translator raises a \<open>TypeError\<close>. Being a function of the query alone, the result is
  determined by the query.
\<close>

theorem translateQuery_result:
  "translateQuery query =
     (if list_all (\<lambda>kv. case like_pattern (snd kv) of None \<Rightarrow> True | Some pat \<Rightarrow> is_string pat)
           query
      then Inr (map (\<lambda>kv. (fst kv,
                  case like_pattern (snd kv) of
                    Some (JStr p) \<Rightarrow>
                      JObj [(''$regex'',
                             JStr (''^'' @
                                   concat (map (\<lambda>c. if c = CHR ''%'' then ''.*'' else [c]) p)
                                   @ ''$'')),
                            (''$options'', JStr ''i'')]
                  | _ \<Rightarrow> snd kv))
                (filter (\<lambda>kv. fst kv \<noteq> ''__proto__'') query))
      else Inl TypeError)"
proof (cases "list_all (\<lambda>kv. case like_pattern (snd kv) of
                               None \<Rightarrow> True | Some pat \<Rightarrow> is_string pat) query")
  case True
  with translateQuery_returns [OF True] show ?thesis by simp
next
  case False
  with translateQuery_raises [OF False] show ?thesis by simp
qed

theorem translateQuery_result_witness:
  "translateQuery
     [(''name'', JObj [(''$like'', JStr ''ab%c'')]), (''status'', JStr ''open''),
      (''rank'', JObj [(''$gt'', JNum 3)])] =
   Inr [(''name'', JObj [(''$regex'', JStr ''^ab.*c$''), (''$options'', JStr ''i'')]),
        (''status'', JStr ''open''), (''rank'', JObj [(''$gt'', JNum 3)])] \<and>
   translateQuery
     [(''status'', JStr ''open''), (''name'', JObj [(''$like'', JArr [JStr ''ab%c''])])] =
   Inl TypeError"
  using translateQuery_result
    [of "[(''name'', JObj [(''$like'', JStr ''ab%c'')]), (''status'', JStr ''open''),
          (''rank'', JObj [(''$gt'', JNum 3)])]"]
    translateQuery_result
    [of "[(''status'', JStr ''open''), (''name'', JObj [(''$like'', JArr [JStr ''ab%c''])])]"]
  by simp

text \<open>
  The query \<open>{name: {$like: 5}}\<close> makes the translator raise; of the query
  \<open>{"__proto__": {$gt: 1}, x: 1}\<close> only the field \<open>x\<close> reaches the filter; and a value
  with first key \<open>$like\<close> is translated also when it has further keys.
\<close>

theorem translateQuery_raises_and_drops:
  "translateQuery [(''name'', JObj [(''$like'', JNum 5)])] = Inl TypeError \<and>
   translateQuery [(''__proto__'', JObj [(''$gt'', JNum 1)]), (''x'', JNum 1)] =
     Inr [(''x'', JNum 1)] \<and>
   translateQuery [(''name'', JObj [(''$like'', JStr ''a%''), (''$ne'', JStr ''ab'')])] =
     Inr [(''name'', JObj [(''$regex'', JStr ''^a.*$''), (''$options'', JStr ''i'')])]"
  by (simp add: translate_value_def get_prop_def like_regex_def)

text \<open>
  C10, as the code has it. The claim lets every value without \<open>$like\<close> as its first
  enumerated key pass through; under the key \<open>__proto__\<close> it does not reach the filter
  (the example after this theorem). A field whose value is not an object with first
  key \<open>$like\<close> is passed through verbatim, wherever it stands in the query, unless it
  is named \<open>__proto__\<close>, in which case the filter has no such field: the fields before
  and after it are translated on their own, and the first failure among them, if any,
  is the result. This covers scalars, arrays and every object that has \<open>$like\<close> in a
  position other than the first.
\<close>

theorem translateQuery_like_only_first_key:
  "like_pattern v = None \<Longrightarrow>
   translateQuery (before @ (key, v) # after) =
     (case translateQuery before of
        Inl e \<Rightarrow> Inl e
      | Inr t1 \<Rightarrow>
          (case translateQuery after of
             Inl e \<Rightarrow> Inl e
           | Inr t2 \<Rightarrow> Inr (t1 @ (if key = ''__proto__'' then [] else [(key, v)]) @ t2)))"
proof -
  assume "like_pattern v = None"
  then have "translate_value v = Inr v"
    by (rule translate_value_other)
  then have "translateQuery ((key, v) # after) =
      (case translateQuery after of
         Inl e \<Rightarrow> Inl e
       | Inr t2 \<Rightarrow> Inr ((if key = ''__proto__'' then [] else [(key, v)]) @ t2))"
    by (simp split: sum.splits)
  then show ?thesis
    by (simp add: translateQuery_append [of before] split: sum.splits)
qed

theorem translateQuery_like_only_first_key_witness:
  "like_pattern (JObj [(''$gt'', JNum 1), (''$like'', JStr ''a%'')]) = None \<and>
   translateQuery
     ([(''name'', JObj [(''$like'', JStr ''a%'')])]
      @ (''rank'', JObj [(''$gt'', JNum 1), (''$like'', JStr ''a%'')]) # []) =
   Inr [(''name'', JObj [(''$regex'', JStr ''^a.*$''), (''$options'', JStr ''i'')]),
        (''rank'', JObj [(''$gt'', JNum 1), (''$like'', JStr ''a%'')])]"
  using translateQuery_like_only_first_key
    [of "JObj [(''$gt'', JNum 1), (''$like'', JStr ''a%'')]"
        "[(''name'', JObj [(''$like'', JStr ''a%'')])]" "''rank''" "[]"]
  by (simp add: translate_value_def get_prop_def like_regex_def)

text \<open>
  The object \<open>{$gt: 1, $like: 'a%'}\<close> under the key \<open>__proto__\<close> is not passed through:
  the filter is empty.
\<close>

theorem translateQuery_proto_not_passed:
  "translateQuery [(''__proto__'', JObj [(''$gt'', JNum 1), (''$like'', JStr ''a%'')])] = Inr []"
  by (simp add: translate_value_def get_prop_def)

text \<open>
  C9. Every character of a \<open>$like\<close> pattern other than \<open>%\<close> is copied into the
  expression as it is, with no escaping, for every field the filter gets (any key but
  \<open>__proto__\<close>). For the pattern \<open>a.c\<close> the filter is \<open>^a.c$\<close>, whose dot is a wildcard to
  the store: the filter accepts \<open>axc\<close>, which the pattern read literally does not.
\<close>

theorem translateQuery_like_unescaped:
  "key \<noteq> ''__proto__'' \<Longrightarrow>
   translateQuery [(key, JObj [(''$like'', JStr p)])] =
     Inr [(key, JObj [(''$regex'',
             JStr (''^'' @ concat (map (\<lambda>c. if c = CHR ''%'' then ''.*'' else [c]) p) @ ''$'')),
           (''$options'', JStr ''i'')])] \<and>
   translateQuery [(key, JObj [(''$like'', JStr ''a.c'')])] =
     Inr [(key, JObj [(''$regex'', JStr ''^a.c$''), (''$options'', JStr ''i'')])] \<and>
   regex_test_i ''^a.c$'' ''axc'' = Some True \<and>
   \<not> like_match ''a.c'' ''axc''"
proof (intro conjI)
  assume key: "key \<noteq> ''__proto__''"
  then show "translateQuery [(key, JObj [(''$like'', JStr p)])] =
     Inr [(key, JObj [(''$regex'',
             JStr (''^'' @ concat (map (\<lambda>c. if c = CHR ''%'' then ''.*'' else [c]) p) @ ''$'')),
           (''$options'', JStr ''i'')])]"
    by (simp add: translate_value_def get_prop_def like_regex_replace)
  from key show "translateQuery [(key, JObj [(''$like'', JStr ''a.c'')])] =
     Inr [(key, JObj [(''$regex'', JStr ''^a.c$''), (''$options'', JStr ''i'')])]"
    by (simp add: translate_value_def get_prop_def like_regex_def)
  show "regex_test_i ''^a.c$'' ''axc'' = Some True"
    by code_simp
  show "\<not> like_match ''a.c'' ''axc''"
    by code_simp
qed

theorem translateQuery_like_unescaped_witness:
  "''title'' \<noteq> ''__proto__'' \<and>
   translateQuery [(''title'', JObj [(''$like'', JStr ''(v1.0)%'')])] =
     Inr [(''title'', JObj [(''$regex'', JStr ''^(v1.0).*$''), (''$options'', JStr ''i'')])] \<and>
   translateQuery [(''title'', JObj [(''$like'', JStr ''a.c'')])] =
     Inr [(''title'', JObj [(''$regex'', JStr ''^a.c$''), (''$options'', JStr ''i'')])] \<and>
   regex_test_i ''^a.c$'' ''axc'' = Some True \<and>
   \<not> like_match ''a.c'' ''axc''"
proof -
  have k: "''title'' \<noteq> ''__proto__''" by simp
  from translateQuery_like_unescaped [OF k, of "''(v1.0)%''"] k show ?thesis by simp
qed

section \<open>Properties of the iterator\<close>

lemma next_loop_length:
  "fst (next_loop cur n docs c) = Inr (Some out) \<Longrightarrow>
   int (length out) \<le> max (int (length docs)) n"
proof (induction cur n docs c rule: next_loop.induct)
  case (1 cur n docs c)
  show ?case
  proof (cases "int (length docs) < n")
    case False
    with "1.prems" show ?thesis by simp
  next
    case True
    show ?thesis
      using "1.prems" "1.IH" True
      by (subst (asm) next_loop.simps)
         (auto split: prod.splits sum.splits bool.splits option.splits if_splits)
  qed
qed

text \<open>
  A loop that stops with fewer documents than asked for stopped because \<open>hasNext\<close>
  answered false or \<open>next\<close> answered \<open>null\<close>: the state it leaves is the one that
  answer left.
\<close>

lemma next_loop_short:
  "next_loop cur n docs c = (Inr (Some out), c') \<Longrightarrow> int (length out) < n \<Longrightarrow>
   \<exists>c0. hasNext cur c0 = (Inr False, c') \<or> next_doc cur c0 = (Inr None, c')"
proof (induction cur n docs c rule: next_loop.induct)
  case (1 cur n docs c)
  show ?case
  proof (cases "int (length docs) < n")
    case False
    with "1.prems" show ?thesis by simp
  next
    case True
    show ?thesis
      using "1.prems" "1.IH" True
      by (subst (asm) next_loop.simps)
         (auto split: prod.splits sum.splits bool.splits option.splits if_splits)
  qed
qed

lemma next_loop_items:
  "next_loop scripted (int n) docs (map Item ds) =
     (Inr (Some (docs @ take (n - length docs) ds)), map Item (drop (n - length docs) ds))"
proof (induction ds arbitrary: docs)
  case Nil
  show ?case by (simp add: scripted_def)
next
  case (Cons d ds)
  show ?case
  proof (cases "length docs < n")
    case False
    then show ?thesis by simp
  next
    case True
    then have "n - length docs = Suc (n - length (docs @ [d]))" by simp
    then show ?thesis
      using True Cons.IH [of "docs @ [d]"]
      by (subst next_loop.simps) (simp add: scripted_def)
  qed
qed

text \<open>On a cursor without faults the iterator hands out the documents \<open>n\<close> at a time.\<close>

lemma traverse_next_items:
  "traverse_next scripted (int n) (map Item ds) = (Inr (Some (take n ds)), map Item (drop n ds))"
  using next_loop_items [of n "[]" ds] by (simp add: traverse_next_def)

text \<open>A fault of \<open>cursor.next()\<close> is caught: the iterator answers \<open>null\<close>.\<close>

lemma traverse_next_fault_of_next:
  "0 < n \<Longrightarrow> hasNext cur c = (Inr True, c1) \<Longrightarrow> next_doc cur c1 = (Inl e, c2) \<Longrightarrow>
   traverse_next cur n c = (Inr None, c2)"
  by (simp add: traverse_next_def)

text \<open>
  A loop that answers \<open>null\<close> met a fault of \<open>next\<close>, and a loop that rejects met a
  fault of \<open>hasNext\<close>: the state it leaves is the one the fault left.
\<close>

lemma next_loop_null:
  "next_loop cur n docs c = (Inr None, c') \<Longrightarrow>
   \<exists>c0 c1 e. hasNext cur c0 = (Inr True, c1) \<and> next_doc cur c1 = (Inl e, c')"
proof (induction cur n docs c rule: next_loop.induct)
  case (1 cur n docs c)
  show ?case
  proof (cases "int (length docs) < n")
    case False
    with "1.prems" show ?thesis by simp
  next
    case True
    show ?thesis
      using "1.prems" "1.IH" True
      by (subst (asm) next_loop.simps)
         (auto split: prod.splits sum.splits bool.splits option.splits if_splits)
  qed
qed

lemma next_loop_rejected:
  "next_loop cur n docs c = (Inl e, c') \<Longrightarrow> \<exists>c0. hasNext cur c0 = (Inl e, c')"
proof (induction cur n docs c rule: next_loop.induct)
  case (1 cur n docs c)
  show ?case
  proof (cases "int (length docs) < n")
    case False
    with "1.prems" show ?thesis by simp
  next
    case True
    show ?thesis
      using "1.prems" "1.IH" True
      by (subst (asm) next_loop.simps)
         (auto split: prod.splits sum.splits bool.splits option.splits if_splits)
  qed
qed

text \<open>
  C7. Whatever the cursor does, a call \<open>next(n)\<close> ends in one of three ways. It returns
  documents: then at most \<open>n\<close> of them, and fewer than \<open>n\<close> only when the cursor said it
  was exhausted (\<open>hasNext\<close> false, or \<open>next\<close> answering \<open>null\<close>). It returns \<open>null\<close>,
  no documents: then only on a fault of \<open>next\<close>. It is rejected, returning nothing:
  then only on a fault of \<open>hasNext\<close>, with that fault. So on a cursor that has \<open>n\<close>
  documents and meets no fault the call returns exactly \<open>n\<close>: on the scripted cursor
  without faults it returns the first \<open>n\<close> documents, or all when there are fewer, and
  leaves the others in the cursor.
\<close>

theorem traverse_next_at_most:
  "(\<forall>docs c'. traverse_next cur (int n) c = (Inr (Some docs), c') \<longrightarrow>
      length docs \<le> n \<and>
      (length docs < n \<longrightarrow>
         (\<exists>c0. hasNext cur c0 = (Inr False, c') \<or> next_doc cur c0 = (Inr None, c')))) \<and>
   (\<forall>c'. traverse_next cur (int n) c = (Inr None, c') \<longrightarrow>
      (\<exists>c0 c1 e. hasNext cur c0 = (Inr True, c1) \<and> next_doc cur c1 = (Inl e, c'))) \<and>
   (\<forall>e c'. traverse_next cur (int n) c = (Inl e, c') \<longrightarrow>
      (\<exists>c0. hasNext cur c0 = (Inl e, c'))) \<and>
   traverse_next scripted (int n) (map Item ds) =
     (Inr (Some (take n ds)), map Item (drop n ds))"
proof (intro conjI allI impI)
  fix docs c'
  assume r: "traverse_next cur (int n) c = (Inr (Some docs), c')"
  then have "fst (next_loop cur (int n) [] c) = Inr (Some docs)"
    by (simp add: traverse_next_def)
  from next_loop_length [OF this] show "length docs \<le> n" by simp
  assume short: "length docs < n"
  from r have "next_loop cur (int n) [] c = (Inr (Some docs), c')"
    by (simp add: traverse_next_def)
  from next_loop_short [OF this] short
  show "\<exists>c0. hasNext cur c0 = (Inr False, c') \<or> next_doc cur c0 = (Inr None, c')"
    by simp
next
  fix c'
  assume "traverse_next cur (int n) c = (Inr None, c')"
  then have "next_loop cur (int n) [] c = (Inr None, c')"
    by (simp add: traverse_next_def)
  then show "\<exists>c0 c1 e. hasNext cur c0 = (Inr True, c1) \<and> next_doc cur c1 = (Inl e, c')"
    by (rule next_loop_null)
next
  fix e c'
  assume "traverse_next cur (int n) c = (Inl e, c')"
  then have "next_loop cur (int n) [] c = (Inl e, c')"
    by (simp add: traverse_next_def)
  then show "\<exists>c0. hasNext cur c0 = (Inl e, c')"
    by (rule next_loop_rejected)
next
  show "traverse_next scripted (int n) (map Item ds) =
     (Inr (Some (take n ds)), map Item (drop n ds))"
    by (rule traverse_next_items)
qed

text \<open>
  The four ways on the scripted cursor, pulled with \<open>next(2)\<close>: three documents give
  the first two and leave the third; one document gives that one, after \<open>hasNext\<close>
  answered false; a fault of \<open>next\<close> at the second pull gives \<open>null\<close>; a fault of
  \<open>hasNext\<close> at the second pull rejects the call.
\<close>

theorem traverse_next_at_most_witness:
  "traverse_next scripted (int 2)
     (map Item [[(''_id'', JStr ''a'')], [(''_id'', JStr ''b'')], [(''_id'', JStr ''c'')]]) =
     (Inr (Some [[(''_id'', JStr ''a'')], [(''_id'', JStr ''b'')]]),
      [Item [(''_id'', JStr ''c'')]]) \<and>
   traverse_next scripted (int 2) [Item [(''_id'', JStr ''a'')]] =
     (Inr (Some [[(''_id'', JStr ''a'')]]), []) \<and>
   length [[(''_id'', JStr ''a'')]] \<le> (2::nat) \<and>
   length [[(''_id'', JStr ''a'')]] < (2::nat) \<and>
   (\<exists>c0. hasNext scripted c0 = (Inr False, []) \<or> next_doc scripted c0 = (Inr None, [])) \<and>
   traverse_next scripted (int 2) [Item [(''_id'', JStr ''a'')], NextFault ''timeout''] =
     (Inr None, []) \<and>
   (\<exists>c0 c1 e. hasNext scripted c0 = (Inr True, c1) \<and> next_doc scripted c1 = (Inl e, [])) \<and>
   traverse_next scripted (int 2) [Item [(''_id'', JStr ''a'')], HasNextFault ''timeout''] =
     (Inl (StoreIOError ''timeout''), []) \<and>
   (\<exists>c0. hasNext scripted c0 = (Inl (StoreIOError ''timeout''), []))"
proof -
  have full: "traverse_next scripted (int 2)
     (map Item [[(''_id'', JStr ''a'')], [(''_id'', JStr ''b'')], [(''_id'', JStr ''c'')]]) =
     (Inr (Some [[(''_id'', JStr ''a'')], [(''_id'', JStr ''b'')]]),
      [Item [(''_id'', JStr ''c'')]])"
    using traverse_next_at_most
      [of scripted 2 "[]"
          "[[(''_id'', JStr ''a'')], [(''_id'', JStr ''b'')], [(''_id'', JStr ''c'')]]",
       THEN conjunct2, THEN conjunct2, THEN conjunct2]
    by simp
  have r1: "traverse_next scripted (int 2) [Item [(''_id'', JStr ''a'')]] =
     (Inr (Some [[(''_id'', JStr ''a'')]]), [])"
    by (simp add: traverse_next_def scripted_def)
  have r2: "traverse_next scripted (int 2)
              [Item [(''_id'', JStr ''a'')], NextFault ''timeout''] = (Inr None, [])"
    by (simp add: traverse_next_def scripted_def)
  have r3: "traverse_next scripted (int 2)
              [Item [(''_id'', JStr ''a'')], HasNextFault ''timeout''] =
            (Inl (StoreIOError ''timeout''), [])"
    by (simp add: traverse_next_def scripted_def)
  have short: "length [[(''_id'', JStr ''a'')]] \<le> (2::nat) \<and>
     (length [[(''_id'', JStr ''a'')]] < (2::nat) \<longrightarrow>
      (\<exists>c0. hasNext scripted c0 = (Inr False, []) \<or> next_doc scripted c0 = (Inr None, [])))"
    using traverse_next_at_most
      [of scripted 2 "[Item [(''_id'', JStr ''a'')]]" "[]",
       THEN conjunct1, rule_format, OF r1] .
  have null: "\<exists>c0 c1 e. hasNext scripted c0 = (Inr True, c1) \<and>
                         next_doc scripted c1 = (Inl e, [])"
    using traverse_next_at_most
      [of scripted 2 "[Item [(''_id'', JStr ''a'')], NextFault ''timeout'']" "[]",
       THEN conjunct2, THEN conjunct1, rule_format, OF r2] .
  have rejected: "\<exists>c0. hasNext scripted c0 = (Inl (StoreIOError ''timeout''), [])"
    using traverse_next_at_most
      [of scripted 2 "[Item [(''_id'', JStr ''a'')], HasNextFault ''timeout'']" "[]",
       THEN conjunct2, THEN conjunct2, THEN conjunct1, rule_format, OF r3] .
  from short have short': "length [[(''_id'', JStr ''a'')]] \<le> (2::nat) \<and>
     length [[(''_id'', JStr ''a'')]] < (2::nat) \<and>
     (\<exists>c0. hasNext scripted c0 = (Inr False, []) \<or> next_doc scripted c0 = (Inr None, []))"
    by simp
  from full r1 short' r2 null r3 rejected show ?thesis
    by (intro conjI) (simp_all only: simp_thms)
qed

text \<open>
  C3. A fault of \<open>cursor.hasNext()\<close> is a read fault of the pull like any other, and
  the iterator does not turn it into \<open>null\<close>: the call is rejected with the fault.
  Here the second pull meets the fault.
\<close>

theorem traverse_next_hasNext_fault_rejects:
  "traverse_next scripted 2 [Item [(''_id'', JStr ''a'')], HasNextFault ''connection lost''] =
     (Inl (StoreIOError ''connection lost''), [])"
  by (simp add: traverse_next_def scripted_def)

section \<open>Properties of update and bulk\<close>

lemma map_of_obj_set: "map_of (obj_set ob k v) = (map_of ob)(k \<mapsto> v)"
  by (induction ob) (auto simp: fun_eq_iff)

lemma get_prop_obj_set_same: "get_prop (obj_set ob k v) k = v"
  by (simp add: get_prop_def map_of_obj_set)

lemma get_prop_obj_set_other: "k' \<noteq> k \<Longrightarrow> get_prop (obj_set ob k v) k' = get_prop ob k'"
  by (simp add: get_prop_def map_of_obj_set)

lemma translateQuery_error: "translateQuery query = Inl e \<Longrightarrow> e = TypeError"
  using translateQuery_raises [of query] translateQuery_returns [of query]
  by (cases "list_all (\<lambda>kv. case like_pattern (snd kv) of
                              None \<Rightarrow> True | Some pat \<Rightarrow> is_string pat) query") simp_all




lemma bulk_writes_eq:
  "map (\<lambda>it. translateQuery (fst it)) items = map Inr qs \<Longrightarrow>
   bulk_writes items =
     Inr (map2 (\<lambda>q it. UpdateOne q [(''$set'', JObj (obj_set (snd it) ''%hash%'' JNull))]) qs items)"
proof (induction items arbitrary: qs)
  case Nil
  then show ?case by simp
next
  case (Cons it items)
  then obtain q qs' where qs: "qs = q # qs'" by (cases qs) auto
  with Cons.prems have "translateQuery (fst it) = Inr q"
    and "map (\<lambda>it. translateQuery (fst it)) items = map Inr qs'" by simp_all
  with Cons.IH [of qs'] show ?case by (simp add: qs)
qed

lemma bulk_writes_raises:
  "\<exists>it \<in> set items. \<exists>e. translateQuery (fst it) = Inl e \<Longrightarrow> bulk_writes items = Inl TypeError"
proof (induction items)
  case Nil
  then show ?case by simp
next
  case (Cons it items)
  show ?case
  proof (cases "translateQuery (fst it)")
    case (Inl e)
    with translateQuery_error [OF Inl] show ?thesis by simp
  next
    case (Inr q)
    with Cons.prems have "\<exists>it \<in> set items. \<exists>e. translateQuery (fst it) = Inl e" by auto
    from Cons.IH [OF this] Inr show ?thesis by simp
  qed
qed

text \<open>
  C6, as the code has it. The claim lets every call end in a batched write; a call
  with an item whose filter does not translate raises before any write (the example
  after the theorem below). For every store and every call:

  If the filters of the items translate, to \<open>qs\<close>, then \<open>bulk\<close> is exactly one
  \<open>bulkWrite\<close> of the store, with one write for each item, in order: if the store
  rejects it, the call is rejected with the same fault, and otherwise the result is
  \<open>matched\<close>, the store's matched count for the batch, and \<open>updated\<close>, its modified
  count, in the state the write left. The update of every write is a single \<open>$set\<close>,
  holding the marker \<open>%hash%\<close> set to \<open>null\<close> and, under their own keys, all other
  entries of the item's update: no test for an operator document is made, so the
  operators of such a document become fields of the \<open>$set\<close>.

  If the filter of some item does not translate, the call raises a \<open>TypeError\<close> and the
  store is as it was.
\<close>

theorem bulk_sets_every_update:
  "(map (\<lambda>it. translateQuery (fst it)) items = map Inr qs \<longrightarrow>
      (\<exists>writes.
         bulk db domain items w =
           (case bulkWrite db domain writes w of
            (Inl err, w') \<Rightarrow> (Inl err, w')
          | (Inr result, w') \<Rightarrow>
              (Inr \<lparr>matched = matchedCount result, updated = modifiedCount result\<rparr>, w')) \<and>
         length writes = length items \<and>
         (\<forall>i<length items. \<exists>marked.
            writes ! i = UpdateOne (qs ! i) [(''$set'', JObj marked)] \<and>
            get_prop marked ''%hash%'' = JNull \<and>
            (\<forall>k. k \<noteq> ''%hash%'' \<longrightarrow> get_prop marked k = get_prop (snd (items ! i)) k)))) \<and>
   ((\<exists>it \<in> set items. \<exists>e. translateQuery (fst it) = Inl e) \<longrightarrow>
      bulk db domain items w = (Inl TypeError, w))"
proof (intro conjI impI)
  assume qs: "map (\<lambda>it. translateQuery (fst it)) items = map Inr qs"
  let ?writes = "map2 (\<lambda>q it. UpdateOne q [(''$set'', JObj (obj_set (snd it) ''%hash%'' JNull))]) qs items"
  from qs have len: "length qs = length items"
    by (metis length_map)
  have "bulk db domain items w =
           (case bulkWrite db domain ?writes w of
            (Inl err, w') \<Rightarrow> (Inl err, w')
          | (Inr result, w') \<Rightarrow>
              (Inr \<lparr>matched = matchedCount result, updated = modifiedCount result\<rparr>, w'))"
    by (simp add: bulk_def to_result_def bulk_writes_eq [OF qs])
  moreover have "length ?writes = length items" using len by simp
  moreover have "\<forall>i<length items. \<exists>marked.
        ?writes ! i = UpdateOne (qs ! i) [(''$set'', JObj marked)] \<and>
        get_prop marked ''%hash%'' = JNull \<and>
        (\<forall>k. k \<noteq> ''%hash%'' \<longrightarrow> get_prop marked k = get_prop (snd (items ! i)) k)"
    using len by (simp add: get_prop_obj_set_same get_prop_obj_set_other)
  ultimately show "\<exists>writes.
         bulk db domain items w =
           (case bulkWrite db domain writes w of
            (Inl err, w') \<Rightarrow> (Inl err, w')
          | (Inr result, w') \<Rightarrow>
              (Inr \<lparr>matched = matchedCount result, updated = modifiedCount result\<rparr>, w')) \<and>
         length writes = length items \<and>
         (\<forall>i<length items. \<exists>marked.
            writes ! i = UpdateOne (qs ! i) [(''$set'', JObj marked)] \<and>
            get_prop marked ''%hash%'' = JNull \<and>
            (\<forall>k. k \<noteq> ''%hash%'' \<longrightarrow> get_prop marked k = get_prop (snd (items ! i)) k))"
    by blast
next
  assume "\<exists>it \<in> set items. \<exists>e. translateQuery (fst it) = Inl e"
  from bulk_writes_raises [OF this]
  show "bulk db domain items w = (Inl TypeError, w)"
    by (simp add: bulk_def)
qed

text \<open>
  One item whose update is the operator document \<open>{$inc: {n: 1}}\<close>, on the store in
  memory: the first open task gets a field named \<open>$inc\<close> and its marker cleared, and
  the call answers \<open>{matched: 1, updated: 1}\<close>. On the store that is down the call
  is rejected with the store's fault. A second item whose filter has a \<open>$like\<close> with
  the pattern \<open>null\<close> makes the call raise.
\<close>

theorem bulk_sets_every_update_witness:
  "map (\<lambda>it. translateQuery (fst it))
     [([(''status'', JStr ''open'')], [(''$inc'', JObj [(''n'', JNum 1)])])] =
   map Inr [[(''status'', JStr ''open'')]] \<and>
   (\<exists>writes.
      bulk (mem_store eq_matches set_fields) ''tasks''
        [([(''status'', JStr ''open'')], [(''$inc'', JObj [(''n'', JNum 1)])])] example_tasks =
      (case bulkWrite (mem_store eq_matches set_fields) ''tasks'' writes example_tasks of
            (Inl err, w') \<Rightarrow> (Inl err, w')
          | (Inr result, w') \<Rightarrow>
              (Inr \<lparr>matched = matchedCount result, updated = modifiedCount result\<rparr>, w')) \<and>
      length writes = 1 \<and>
      (\<exists>marked.
         writes ! 0 = UpdateOne [(''status'', JStr ''open'')] [(''$set'', JObj marked)] \<and>
         get_prop marked ''%hash%'' = JNull \<and>
         get_prop marked ''$inc'' = JObj [(''n'', JNum 1)])) \<and>
   fst (bulk (mem_store eq_matches set_fields) ''tasks''
        [([(''status'', JStr ''open'')], [(''$inc'', JObj [(''n'', JNum 1)])])] example_tasks) =
     Inr \<lparr>matched = 1, updated = 1\<rparr> \<and>
   colls (snd (bulk (mem_store eq_matches set_fields) ''tasks''
        [([(''status'', JStr ''open'')], [(''$inc'', JObj [(''n'', JNum 1)])])] example_tasks))
     ''tasks'' =
     [[(''_id'', JStr ''t1''), (''%hash%'', JNull), (''status'', JStr ''open''),
       (''$inc'', JObj [(''n'', JNum 1)])],
      [(''_id'', JStr ''t2''), (''status'', JStr ''done''), (''%hash%'', JStr ''h2'')],
      [(''_id'', JStr ''t3''), (''status'', JStr ''open'')]] \<and>
   bulk offline_store ''tasks''
     [([(''status'', JStr ''open'')], [(''$inc'', JObj [(''n'', JNum 1)])])] example_tasks =
     (Inl (StoreIOError ''offline''), example_tasks) \<and>
   (\<exists>it \<in> set [([(''status'', JStr ''open'')], [(''status'', JStr ''closed'')]),
        ([(''title'', JObj [(''$like'', JNull)])], [(''status'', JStr ''closed'')])].
      \<exists>e. translateQuery (fst it) = Inl e) \<and>
   bulk (mem_store eq_matches set_fields) ''tasks''
       [([(''status'', JStr ''open'')], [(''status'', JStr ''closed'')]),
        ([(''title'', JObj [(''$like'', JNull)])], [(''status'', JStr ''closed'')])]
       example_tasks =
     (Inl TypeError, example_tasks)"
proof -
  have q: "map (\<lambda>it. translateQuery (fst it))
     [([(''status'', JStr ''open'')], [(''$inc'', JObj [(''n'', JNum 1)])])] =
   map Inr [[(''status'', JStr ''open'')]]"
    by (simp add: translate_value_def)
  have inc: "get_prop [(''$inc'', JObj [(''n'', JNum 1)])] ''$inc'' = JObj [(''n'', JNum 1)]"
    by (simp add: get_prop_def)
  have bad: "\<exists>it \<in> set [([(''status'', JStr ''open'')], [(''status'', JStr ''closed'')]),
        ([(''title'', JObj [(''$like'', JNull)])], [(''status'', JStr ''closed'')])].
      \<exists>e. translateQuery (fst it) = Inl e"
    by (simp add: translate_value_def get_prop_def)
  from bulk_sets_every_update
    [of "[([(''status'', JStr ''open'')], [(''$inc'', JObj [(''n'', JNum 1)])])]"
        "[[(''status'', JStr ''open'')]]" "mem_store eq_matches set_fields" "''tasks''"
        example_tasks, THEN conjunct1, rule_format, OF q]
  obtain writes where
    b: "bulk (mem_store eq_matches set_fields) ''tasks''
        [([(''status'', JStr ''open'')], [(''$inc'', JObj [(''n'', JNum 1)])])] example_tasks =
      (case bulkWrite (mem_store eq_matches set_fields) ''tasks'' writes example_tasks of
            (Inl err, w') \<Rightarrow> (Inl err, w')
          | (Inr result, w') \<Rightarrow>
              (Inr \<lparr>matched = matchedCount result, updated = modifiedCount result\<rparr>, w'))"
    and l: "length writes = 1"
    and w: "\<exists>marked.
        writes ! 0 = UpdateOne [(''status'', JStr ''open'')] [(''$set'', JObj marked)] \<and>
        get_prop marked ''%hash%'' = JNull \<and>
        (\<forall>k. k \<noteq> ''%hash%'' \<longrightarrow>
           get_prop marked k = get_prop [(''$inc'', JObj [(''n'', JNum 1)])] k)"
    by auto
  from w inc have "\<exists>marked.
         writes ! 0 = UpdateOne [(''status'', JStr ''open'')] [(''$set'', JObj marked)] \<and>
         get_prop marked ''%hash%'' = JNull \<and>
         get_prop marked ''$inc'' = JObj [(''n'', JNum 1)]"
    by fastforce
  with b l have A: "\<exists>writes.
      bulk (mem_store eq_matches set_fields) ''tasks''
        [([(''status'', JStr ''open'')], [(''$inc'', JObj [(''n'', JNum 1)])])] example_tasks =
      (case bulkWrite (mem_store eq_matches set_fields) ''tasks'' writes example_tasks of
            (Inl err, w') \<Rightarrow> (Inl err, w')
          | (Inr result, w') \<Rightarrow>
              (Inr \<lparr>matched = matchedCount result, updated = modifiedCount result\<rparr>, w')) \<and>
      length writes = 1 \<and>
      (\<exists>marked.
         writes ! 0 = UpdateOne [(''status'', JStr ''open'')] [(''$set'', JObj marked)] \<and>
         get_prop marked ''%hash%'' = JNull \<and>
         get_prop marked ''$inc'' = JObj [(''n'', JNum 1)])"
    by blast
  have A1: "fst (bulk (mem_store eq_matches set_fields) ''tasks''
        [([(''status'', JStr ''open'')], [(''$inc'', JObj [(''n'', JNum 1)])])] example_tasks) =
     Inr \<lparr>matched = 1, updated = 1\<rparr>"
    by (simp add: bulk_def to_result_def mem_store_def example_tasks_def eq_matches_def
        set_fields_def get_prop_def translate_value_def)
  have A2: "colls (snd (bulk (mem_store eq_matches set_fields) ''tasks''
        [([(''status'', JStr ''open'')], [(''$inc'', JObj [(''n'', JNum 1)])])] example_tasks))
     ''tasks'' =
     [[(''_id'', JStr ''t1''), (''%hash%'', JNull), (''status'', JStr ''open''),
       (''$inc'', JObj [(''n'', JNum 1)])],
      [(''_id'', JStr ''t2''), (''status'', JStr ''done''), (''%hash%'', JStr ''h2'')],
      [(''_id'', JStr ''t3''), (''status'', JStr ''open'')]]"
    by (simp add: bulk_def to_result_def mem_store_def example_tasks_def eq_matches_def
        set_fields_def get_prop_def translate_value_def)
  have A3: "bulk offline_store ''tasks''
     [([(''status'', JStr ''open'')], [(''$inc'', JObj [(''n'', JNum 1)])])] example_tasks =
     (Inl (StoreIOError ''offline''), example_tasks)"
    by (simp add: bulk_def to_result_def offline_store_def translate_value_def)
  have B: "bulk (mem_store eq_matches set_fields) ''tasks''
       [([(''status'', JStr ''open'')], [(''status'', JStr ''closed'')]),
        ([(''title'', JObj [(''$like'', JNull)])], [(''status'', JStr ''closed'')])]
       example_tasks =
     (Inl TypeError, example_tasks)"
    using bulk_sets_every_update
      [of "[([(''status'', JStr ''open'')], [(''status'', JStr ''closed'')]),
        ([(''title'', JObj [(''$like'', JNull)])], [(''status'', JStr ''closed'')])]"
          "[]" "mem_store eq_matches set_fields" "''tasks''" example_tasks,
       THEN conjunct2, rule_format, OF bad] .
  from q A A1 A2 A3 bad B show ?thesis
    by (intro conjI)
qed

text \<open>
  Two items, the filter of the second with a \<open>$like\<close> whose pattern is \<open>5\<close>: the call
  raises, and nothing is written, the first item included.
\<close>

theorem bulk_raises_without_write:
  "bulk (mem_store eq_matches set_fields) ''tasks''
     [([(''status'', JStr ''open'')], [(''status'', JStr ''closed'')]),
      ([(''name'', JObj [(''$like'', JNum 5)])], [(''status'', JStr ''closed'')])]
     example_tasks =
   (Inl TypeError, example_tasks)"
  by (simp add: bulk_def translate_value_def get_prop_def)

section \<open>Properties of move\<close>













section \<open>Properties of traverseFullTextContexts\<close>

lemma set_set_add: "set (set_add xs x) = insert x (set xs)"
  by (auto simp: set_add_def)

lemma set_foldl_set_add: "set (foldl set_add acc xs) = set acc \<union> set xs"
  by (induction xs arbitrary: acc) (auto simp: set_set_add)

lemma set_new_set: "set (new_set xs) = set xs"
  by (simp add: new_set_def set_foldl_set_add)

lemma set_add_mixins:
  "set (foldl (\<lambda>desc dd. if isMixin h dd then set_add desc dd else desc) desc xs) =
     set desc \<union> {dd \<in> set xs. isMixin h dd}"
  by (induction xs arbitrary: desc) (auto simp: set_set_add)

lemma set_working_set:
  "set (working_set h desc as) =
     set desc \<union> {dd. \<exists>a \<in> set as. dd \<in> set (getDescendants h a) \<and> isMixin h dd}"
  unfolding working_set_def
  by (induction as arbitrary: desc) (auto simp: set_add_mixins)

lemma ancestors_loop:
  "foldl (\<lambda>(desc, s) a.
            (foldl (\<lambda>desc dd. if isMixin h dd then set_add desc dd else desc)
               desc (getDescendants h a),
             visit h op a s))
     (desc, s) as =
   (working_set h desc as, foldl (\<lambda>s a. visit h op a s) s as)"
  unfolding working_set_def
  by (induction as arbitrary: desc s) simp_all

lemma visit_fold: "visit h op cl s = foldl (\<lambda>s c. op c s) s (declared h [cl])"
  by (simp add: visit_def declared_def split: option.splits)

lemma visits_fold:
  "foldl (\<lambda>s a. visit h op a s) s as = foldl (\<lambda>s c. op c s) s (declared h as)"
  by (induction as arbitrary: s) (auto simp: visit_def declared_def split: option.splits)

lemma mixin_visits:
  "foldl (\<lambda>s d. if isMixin h d then visit h op d s else s) s ds =
   foldl (\<lambda>s a. visit h op a s) s (filter (isMixin h) ds)"
  by (induction ds arbitrary: s) simp_all

lemma declared_append: "declared h (xs @ ys) = declared h xs @ declared h ys"
  by (simp add: declared_def)

lemma traverse_visits:
  "traverseFullTextContexts h oc op s =
     ([], foldl (\<lambda>s a. visit h op a s)
            (foldl (\<lambda>s a. visit h op a s) (visit h op oc s) (getAncestors h oc))
            (filter (isMixin h)
               (working_set h (new_set (getDescendants h oc)) (getAncestors h oc))))"
  by (simp add: traverseFullTextContexts_def Let_def ancestors_loop mixin_visits)

lemma traverse_fold:
  "traverseFullTextContexts h oc op s =
     ([], foldl (\<lambda>s c. op c s) s
        (declared h
           (oc # getAncestors h oc @
            filter (isMixin h)
              (working_set h (new_set (getDescendants h oc)) (getAncestors h oc)))))"
proof -
  have "declared h (oc # getAncestors h oc @
            filter (isMixin h)
              (working_set h (new_set (getDescendants h oc)) (getAncestors h oc))) =
        declared h [oc] @ declared h (getAncestors h oc) @
        declared h (filter (isMixin h)
              (working_set h (new_set (getDescendants h oc)) (getAncestors h oc)))"
    by (simp add: declared_def)
  then show ?thesis
    by (simp only: traverse_visits visits_fold) (simp add: visit_fold)
qed

lemma foldl_note: "foldl (\<lambda>tr c. tr @ [c]) tr cs = tr @ cs"
  by (induction cs arbitrary: tr) simp_all

lemma visited_eq:
  "visited h oc =
     declared h
       (oc # getAncestors h oc @
        filter (isMixin h) (working_set h (new_set (getDescendants h oc)) (getAncestors h oc)))"
  by (simp add: visited_def traverse_fold foldl_note)

lemma declared_mem:
  "cl \<in> set cls \<Longrightarrow> getFullTextContext h cl = Some c \<Longrightarrow> c \<in> set (declared h cls)"
  by (auto simp: declared_def intro!: bexI [of _ cl])

text \<open>
  C8. Whatever the visitor does, it is handed the contexts of \<open>visited\<close>, in that
  order. These are: first the context declared for \<open>objectClass\<close> itself, when there is
  one; then those of its ancestors; then those of the mixins in the working set, which
  holds the descendants of \<open>objectClass\<close> and the mixins among the descendants of each
  ancestor. So the context of every mixin among the descendants of the class or of one
  of its ancestors is visited.
\<close>

theorem traverse_own_first_then_mixins:
  "traverseFullTextContexts h oc op s = ([], foldl (\<lambda>s c. op c s) s (visited h oc)) \<and>
   (\<exists>ws. visited h oc =
            declared h [oc] @ declared h (getAncestors h oc) @
            declared h (filter (isMixin h) ws) \<and>
         set ws = set (getDescendants h oc) \<union>
            {d. \<exists>a \<in> set (getAncestors h oc). d \<in> set (getDescendants h a) \<and> isMixin h d}) \<and>
   (\<forall>a d c. (d \<in> set (getDescendants h oc) \<or>
               a \<in> set (getAncestors h oc) \<and> d \<in> set (getDescendants h a)) \<longrightarrow>
            isMixin h d \<longrightarrow> getFullTextContext h d = Some c \<longrightarrow> c \<in> set (visited h oc))"
proof (intro conjI allI impI)
  show "traverseFullTextContexts h oc op s = ([], foldl (\<lambda>s c. op c s) s (visited h oc))"
    by (simp add: visited_eq traverse_fold)
  let ?ws = "working_set h (new_set (getDescendants h oc)) (getAncestors h oc)"
  have "visited h oc =
      declared h [oc] @ declared h (getAncestors h oc) @ declared h (filter (isMixin h) ?ws)"
    by (simp add: visited_eq declared_def)
  moreover have "set ?ws = set (getDescendants h oc) \<union>
      {d. \<exists>a \<in> set (getAncestors h oc). d \<in> set (getDescendants h a) \<and> isMixin h d}"
    by (simp add: set_working_set set_new_set)
  ultimately show "\<exists>ws. visited h oc =
            declared h [oc] @ declared h (getAncestors h oc) @
            declared h (filter (isMixin h) ws) \<and>
         set ws = set (getDescendants h oc) \<union>
            {d. \<exists>a \<in> set (getAncestors h oc). d \<in> set (getDescendants h a) \<and> isMixin h d}"
    by blast
next
  fix a d c
  assume d: "d \<in> set (getDescendants h oc) \<or>
             a \<in> set (getAncestors h oc) \<and> d \<in> set (getDescendants h a)"
    and m: "isMixin h d" and c: "getFullTextContext h d = Some c"
  from d m have "d \<in> set (filter (isMixin h)
      (working_set h (new_set (getDescendants h oc)) (getAncestors h oc)))"
    by (auto simp: set_working_set set_new_set)
  then have "d \<in> set (oc # getAncestors h oc @ filter (isMixin h)
      (working_set h (new_set (getDescendants h oc)) (getAncestors h oc)))"
    by simp
  from declared_mem [OF this c] show "c \<in> set (visited h oc)"
    by (simp add: visited_eq)
qed

theorem traverse_own_first_then_mixins_witness:
  "''Doc'' \<in> set (getAncestors example_hierarchy ''Issue'') \<and>
   ''Tagged'' \<in> set (getDescendants example_hierarchy ''Doc'') \<and>
   isMixin example_hierarchy ''Tagged'' \<and>
   getFullTextContext example_hierarchy ''Tagged'' = Some [''Tag''] \<and>
   [''Tag''] \<in> set (visited example_hierarchy ''Issue'') \<and>
   (\<exists>later. visited example_hierarchy ''Issue'' = [''Project''] # later)"
proof -
  have a: "''Doc'' \<in> set (getAncestors example_hierarchy ''Issue'')"
    and d: "''Tagged'' \<in> set (getDescendants example_hierarchy ''Doc'')"
    and m: "isMixin example_hierarchy ''Tagged''"
    and c: "getFullTextContext example_hierarchy ''Tagged'' = Some [''Tag'']"
    by (simp_all add: example_hierarchy_def)
  note inst = traverse_own_first_then_mixins [of example_hierarchy "''Issue''"]
  from a d have ad: "''Tagged'' \<in> set (getDescendants example_hierarchy ''Issue'') \<or>
      ''Doc'' \<in> set (getAncestors example_hierarchy ''Issue'') \<and>
      ''Tagged'' \<in> set (getDescendants example_hierarchy ''Doc'')"
    by simp
  from inst [THEN conjunct2, THEN conjunct2, rule_format, OF ad m c]
  have v: "[''Tag''] \<in> set (visited example_hierarchy ''Issue'')" .
  have "declared example_hierarchy [''Issue''] = [[''Project'']]"
    by (simp add: declared_def example_hierarchy_def)
  with inst [THEN conjunct2, THEN conjunct1]
  have o: "\<exists>later. visited example_hierarchy ''Issue'' = [''Project''] # later"
    by auto
  from a d m c v o show ?thesis by (intro conjI)
qed


section \<open>Properties of loadIndexStageStage\<close>



















end
